theory Spec2Isabelle
  imports Main "HOL-Library.Word"
begin

unbundle bit_operations_syntax

section \<open>Rate limiter (server.ts, lines 23-65)\<close>

text \<open>
  \<^verbatim>\<open>const RATE_LIMIT_WINDOW = 60 * 1000\<close>, \<^verbatim>\<open>const MAX_CONNECTIONS_PER_IP = 5\<close> and
  \<^verbatim>\<open>const ipConnections = new Map<string, { count: number; resetTime: number }>()\<close>.
  Times are milliseconds since the epoch, as \<^verbatim>\<open>Date.now()\<close> returns them; the clock is an
  explicit argument of every function that reads it.
\<close>

definition RATE_LIMIT_WINDOW :: int where
  "RATE_LIMIT_WINDOW = 60 * 1000"

definition MAX_CONNECTIONS_PER_IP :: int where
  "MAX_CONNECTIONS_PER_IP = 5"

record connectionInfo =
  count :: int
  resetTime :: int

type_synonym ipConnections = "string \<rightharpoonup> connectionInfo"

text \<open>
  \<^verbatim>\<open>checkRateLimit(ip)\<close>: the map is global and mutated in place, so the model takes it and
  returns it with the answer. A stored record is an object, hence truthy: the test
  \<^verbatim>\<open>!connectionInfo\<close> holds exactly when the address has no entry.
\<close>

definition checkRateLimit :: "int \<Rightarrow> string \<Rightarrow> ipConnections \<Rightarrow> bool \<times> ipConnections" where
  "checkRateLimit now ip m =
     (case m ip of
        None \<Rightarrow> (True, m(ip \<mapsto> \<lparr>count = 1, resetTime = now + RATE_LIMIT_WINDOW\<rparr>))
      | Some info \<Rightarrow>
          if now > resetTime info
          then (True, m(ip \<mapsto> \<lparr>count = 1, resetTime = now + RATE_LIMIT_WINDOW\<rparr>))
          else if count info \<ge> MAX_CONNECTIONS_PER_IP then (False, m)
          else (True, m(ip \<mapsto> info\<lparr>count := count info + 1\<rparr>)))"

text \<open>
  A run of the limiter: the calls \<open>(now, ip)\<close> in the order they are made, threading the
  map; \<open>answers\<close> collects what each call returned, \<open>after\<close> is the map left behind.
\<close>

fun after :: "ipConnections \<Rightarrow> (int \<times> string) list \<Rightarrow> ipConnections" where
  "after m [] = m"
| "after m ((now, ip) # cs) = after (snd (checkRateLimit now ip m)) cs"

fun answers :: "ipConnections \<Rightarrow> (int \<times> string) list \<Rightarrow> bool list" where
  "answers m [] = []"
| "answers m ((now, ip) # cs) =
     fst (checkRateLimit now ip m) # answers (snd (checkRateLimit now ip m)) cs"

section \<open>Source address of an upgrade request (server.ts, lines 194-207)\<close>

text \<open>
  Strings are lists of code units; the model covers the code units below 256, which is all
  the claims need (header names, decimal timestamps and hexadecimal tokens are ASCII).
  A value of type \<^verbatim>\<open>string | undefined\<close> is a \<open>string option\<close>; it is truthy when it is
  present and not the empty string.
\<close>

definition truthy :: "string option \<Rightarrow> bool" where
  "truthy v = (case v of None \<Rightarrow> False | Some s \<Rightarrow> s \<noteq> [])"

text \<open>\<^verbatim>\<open>a || b\<close> on values of type \<^verbatim>\<open>string | undefined\<close>.\<close>

definition js_or :: "string option \<Rightarrow> string option \<Rightarrow> string option" where
  "js_or a b = (if truthy a then a else b)"

definition ipHeaders :: "string list" where
  "ipHeaders =
     [''x-forwarded-for'', ''x-real-ip'', ''cf-connecting-ip'', ''x-forwarded'',
      ''true-client-ip'', ''x-client-ip'', ''x-cluster-client-ip'', ''fastly-client-ip'',
      ''x-appengine-user-ip'']"

text \<open>
  What the handler reads of the request: \<^verbatim>\<open>req.headers\<close> (Node lower-cases the names and
  joins repeated headers of these names into one string) and \<^verbatim>\<open>req.socket.remoteAddress\<close>.
\<close>

record request =
  headers :: "string \<rightharpoonup> string"
  remoteAddress :: "string option"

text \<open>
  \<^verbatim>\<open>const ip = ipHeaders.find(header => req.headers[header]) || req.socket.remoteAddress || 'unknown'\<close>.
  \<^verbatim>\<open>Array.prototype.find\<close> returns the first \<^emph>\<open>element of the array\<close> that satisfies the
  predicate, \<open>List.find\<close> likewise; the elements of \<open>ipHeaders\<close> are header names.
\<close>

definition client_ip :: "request \<Rightarrow> string" where
  "client_ip req =
     (case js_or (js_or (List.find (\<lambda>header. truthy (headers req header)) ipHeaders)
                        (remoteAddress req))
                 (Some ''unknown'') of
        Some ip \<Rightarrow> ip
      | None \<Rightarrow> ''unknown'')"

text \<open>Lines 206-207: the derived string is the key handed to the limiter.\<close>

definition rate_gate :: "int \<Rightarrow> request \<Rightarrow> ipConnections \<Rightarrow> bool \<times> ipConnections" where
  "rate_gate now req m = checkRateLimit now (client_ip req) m"

section \<open>Token authenticator (server.ts, lines 9-16 and 28-48)\<close>

datatype error =
    MONGODB_URI_not_set
  | TOKEN_not_set
  | ERR_CRYPTO_TIMING_SAFE_EQUAL_LENGTH

text \<open>
  Module start: \<^verbatim>\<open>if (!MONGODB_URI) throw ...\<close>, \<^verbatim>\<open>if (!TOKEN) throw ...\<close>. The process only
  runs with a secret that is present and not empty; the result is that secret.
\<close>

definition startup :: "string option \<Rightarrow> string option \<Rightarrow> error + string" where
  "startup MONGODB_URI TOKEN =
     (if \<not> truthy MONGODB_URI then Inl MONGODB_URI_not_set
      else (case TOKEN of
              None \<Rightarrow> Inl TOKEN_not_set
            | Some secret \<Rightarrow> if secret = [] then Inl TOKEN_not_set else Inr secret))"

type_synonym bytes = "8 word list"

text \<open>
  \<^verbatim>\<open>parseInt(timestamp, 10)\<close> as ECMAScript defines it: leading white space is dropped, one
  sign is read, then the longest prefix of decimal digits; with no digit the result is NaN
  (\<open>None\<close>), whatever follows the digits is ignored. The white space code units below 256 are
  TAB, LF, VT, FF, CR, SP and NBSP. The result is a double in the source and an \<open>int\<close>
  here: the two agree on every value below \<open>2^53\<close>, and a larger one is further than five
  minutes from any \<^verbatim>\<open>Date.now()\<close> in both.
\<close>

definition is_white :: "char \<Rightarrow> bool" where
  "is_white c = (of_char c \<in> {9, 10, 11, 12, 13, 32, 160 :: nat})"

definition is_digit :: "char \<Rightarrow> bool" where
  "is_digit c = (48 \<le> (of_char c :: nat) \<and> (of_char c :: nat) \<le> 57)"

definition dec_value :: "string \<Rightarrow> nat" where
  "dec_value z = foldl (\<lambda>acc c. 10 * acc + (of_char c - 48)) 0 z"

definition parseInt :: "string \<Rightarrow> int option" where
  "parseInt str =
     (let S = dropWhile is_white str;
          sign = (if S \<noteq> [] \<and> hd S = CHR ''-'' then - 1 else 1 :: int);
          S' = (if S \<noteq> [] \<and> (hd S = CHR ''+'' \<or> hd S = CHR ''-'') then tl S else S);
          Z = takeWhile is_digit S'
      in if Z = [] then None else Some (sign * int (dec_value Z)))"

text \<open>
  \<^verbatim>\<open>Buffer.from(string)\<close>: the UTF-8 encoding, one byte for a code unit below 128 and two
  for the others below 256.
\<close>

definition utf8_unit :: "char \<Rightarrow> bytes" where
  "utf8_unit c =
     (let n = (of_char c :: nat)
      in if n < 128 then [of_nat n] else [of_nat (192 + n div 64), of_nat (128 + n mod 64)])"

definition Buffer_from :: "string \<Rightarrow> bytes" where
  "Buffer_from s = concat (map utf8_unit s)"

text \<open>\<^verbatim>\<open>.digest('hex')\<close>: two lower-case hexadecimal digits for each byte, high nibble first.\<close>

definition hex_digit :: "nat \<Rightarrow> char" where
  "hex_digit n = ''0123456789abcdef'' ! (n mod 16)"

definition hex :: "bytes \<Rightarrow> string" where
  "hex bs = concat (map (\<lambda>b. [hex_digit (unat (drop_bit 4 b)), hex_digit (unat (take_bit 4 b))]) bs)"

text \<open>
  \<^verbatim>\<open>crypto.timingSafeEqual(a, b)\<close> belongs to Node, not to the repository. Its contract:
  it throws a \<^verbatim>\<open>RangeError\<close> (code \<^verbatim>\<open>ERR_CRYPTO_TIMING_SAFE_EQUAL_LENGTH\<close>) when the two
  buffers differ in byte length, and otherwise tells whether they hold the same bytes.
\<close>

definition timingSafeEqual :: "bytes \<Rightarrow> bytes \<Rightarrow> error + bool" where
  "timingSafeEqual a b =
     (if length a \<noteq> length b then Inl ERR_CRYPTO_TIMING_SAFE_EQUAL_LENGTH else Inr (a = b))"

text \<open>
  \<^verbatim>\<open>validateToken(token, timestamp)\<close>. The keyed hash of Node's crypto library is the
  parameter \<open>hmac_sha256\<close> (key, message, digest bytes); the secret \<^verbatim>\<open>TOKEN\<close> and the clock
  are arguments as well. An exception leaving the function is \<open>Inl\<close>.
\<close>

definition validateToken ::
  "(string \<Rightarrow> string \<Rightarrow> bytes) \<Rightarrow> string option \<Rightarrow> int \<Rightarrow> string option \<Rightarrow> string option \<Rightarrow> error + bool" where
  "validateToken hmac_sha256 TOKEN now token timestamp =
     (case (token, timestamp, TOKEN) of
        (Some tok, Some ts, Some secret) \<Rightarrow>
          if tok = [] \<or> ts = [] \<or> secret = [] then Inr False
          else (case parseInt ts of
                  None \<Rightarrow> Inr False
                | Some timestampNum \<Rightarrow>
                    if \<bar>now - timestampNum\<bar> > 5 * 60 * 1000 then Inr False
                    else let expectedToken = hex (hmac_sha256 secret ts)
                         in timingSafeEqual (Buffer_from tok) (Buffer_from expectedToken))
      | _ \<Rightarrow> Inr False)"

section \<open>Connection registry and broadcast (server.ts, lines 21, 67-74, 223-224)\<close>

datatype readyState = CONNECTING | OPEN | CLOSING | CLOSED

text \<open>
  The part of the world \<^verbatim>\<open>broadcast\<close> touches. \<open>activeSockets\<close> is the \<^verbatim>\<open>Set<WebSocket>\<close>
  in its iteration order (insertion order, no element twice); \<open>state\<close> is what each
  socket's \<^verbatim>\<open>readyState\<close> reports; \<open>sent\<close> lists, per socket, the payloads handed to
  \<^verbatim>\<open>ws.send\<close>, oldest first; \<open>stringified\<close> lists the values \<^verbatim>\<open>JSON.stringify\<close> was called on.
\<close>

record ('ws, 'd, 'p) world =
  activeSockets :: "'ws list"
  state :: "'ws \<Rightarrow> readyState"
  sent :: "'ws \<Rightarrow> 'p list"
  stringified :: "'d list"

text \<open>\<^verbatim>\<open>activeSockets.add(ws)\<close> and \<^verbatim>\<open>activeSockets.delete(ws)\<close>.\<close>

definition add_socket :: "'ws \<Rightarrow> ('ws, 'd, 'p) world \<Rightarrow> ('ws, 'd, 'p) world" where
  "add_socket ws w =
     (if ws \<in> set (activeSockets w) then w else w\<lparr>activeSockets := activeSockets w @ [ws]\<rparr>)"

definition delete_socket :: "'ws \<Rightarrow> ('ws, 'd, 'p) world \<Rightarrow> ('ws, 'd, 'p) world" where
  "delete_socket ws w = w\<lparr>activeSockets := removeAll ws (activeSockets w)\<rparr>"

definition ws_send :: "'ws \<Rightarrow> 'p \<Rightarrow> ('ws, 'd, 'p) world \<Rightarrow> ('ws, 'd, 'p) world" where
  "ws_send ws payload w = w\<lparr>sent := (sent w)(ws := sent w ws @ [payload])\<rparr>"

definition JSON_stringify :: "('d \<Rightarrow> 'p) \<Rightarrow> 'd \<Rightarrow> ('ws, 'd, 'p) world \<Rightarrow> 'p \<times> ('ws, 'd, 'p) world" where
  "JSON_stringify stringify data w = (stringify data, w\<lparr>stringified := stringified w @ [data]\<rparr>)"

text \<open>
  \<^verbatim>\<open>broadcast(data)\<close>: one call of \<^verbatim>\<open>JSON.stringify\<close>, then the loop over the set. The
  serializer is the parameter \<open>stringify\<close>.
\<close>

definition broadcast :: "('d \<Rightarrow> 'p) \<Rightarrow> 'd \<Rightarrow> ('ws, 'd, 'p) world \<Rightarrow> ('ws, 'd, 'p) world" where
  "broadcast stringify data w =
     (let (payload, w1) = JSON_stringify stringify data w
      in fold (\<lambda>ws w'. if state w' ws = OPEN then ws_send ws payload w' else w')
              (activeSockets w1) w1)"

section \<open>Diff engine (server.ts, lines 76-141)\<close>

text \<open>
  The values the engine can meet. A JSON document is built from \<open>JNull\<close>, \<open>JBool\<close>,
  \<open>JNum\<close>, \<open>JStr\<close>, \<open>JArray\<close> and \<open>JObject\<close>. The numbers other than NaN are any
  type \<open>'n\<close> whose equality is \<^verbatim>\<open>===\<close>; \<open>JNaN\<close> is the number that is \<^verbatim>\<open>!==\<close> to
  itself, which no JSON text denotes. \<open>JObject\<close> lists the enumerable own properties in
  the order \<^verbatim>\<open>Object.keys\<close> reports them. Reading a property that is not an enumerable own
  property falls through to the JavaScript built-ins (\<^verbatim>\<open>length\<close>, the prototype chain), which
  can answer with a number, a function or a prototype object: \<open>JFunction\<close> and
  \<open>JPrototype\<close> stand for these, told apart by identity. \<^verbatim>\<open>undefined\<close> is \<open>None\<close>.
\<close>

datatype 'n atom =
    JNull | JBool bool | JNum 'n | JNaN | JStr string | JFunction nat | JPrototype nat

datatype 'n jsval = Prim "'n atom" | JArray "'n jsval list" | JObject "(string \<times> 'n jsval) list"

datatype 'n DiffEntry =
    Added string "'n jsval"
  | Removed string "'n jsval"
  | Changed string "'n jsval" "'n jsval"

text \<open>A non-negative integer converted to a string, as in a template literal: decimal digits.\<close>

definition digit_char :: "nat \<Rightarrow> char" where
  "digit_char d = ''0123456789'' ! d"

fun show_nat :: "nat \<Rightarrow> string" where
  "show_nat n = (if n < 10 then [digit_char n] else show_nat (n div 10) @ [digit_char (n mod 10)])"

declare show_nat.simps [simp del]

text \<open>The index keys \<^verbatim>\<open>"0", "1", ...\<close> of an array or a string of the given length.\<close>

definition indices :: "nat \<Rightarrow> string list" where
  "indices n = map show_nat [0..<n]"

fun falsy :: "('n::zero) jsval \<Rightarrow> bool" where
  "falsy (Prim JNull) = True"
| "falsy (Prim (JBool b)) = (\<not> b)"
| "falsy (Prim (JNum x)) = (x = 0)"
| "falsy (Prim JNaN) = True"
| "falsy (Prim (JStr s)) = (s = [])"
| "falsy _ = False"

text \<open>\<^verbatim>\<open>obj || {}\<close>.\<close>

definition or_empty :: "('n::zero) jsval option \<Rightarrow> 'n jsval" where
  "or_empty obj = (case obj of None \<Rightarrow> JObject [] | Some v \<Rightarrow> if falsy v then JObject [] else v)"

text \<open>\<^verbatim>\<open>Object.keys(v)\<close>: the enumerable own string keys.\<close>

fun Object_keys :: "'n jsval \<Rightarrow> string list" where
  "Object_keys (JObject kvs) = map fst kvs"
| "Object_keys (JArray xs) = indices (length xs)"
| "Object_keys (Prim (JStr s)) = indices (length s)"
| "Object_keys (Prim _) = []"

fun own_property :: "'n jsval \<Rightarrow> string \<Rightarrow> 'n jsval option" where
  "own_property (JObject kvs) k = map_of kvs k"
| "own_property (JArray xs) k = map_of (zip (indices (length xs)) xs) k"
| "own_property (Prim (JStr s)) k =
     map_of (zip (indices (length s)) (map (\<lambda>c. Prim (JStr [c])) s)) k"
| "own_property (Prim _) k = None"

text \<open>
  \<^verbatim>\<open>obj?.[key]\<close>: \<^verbatim>\<open>undefined\<close> on \<^verbatim>\<open>undefined\<close> and \<^verbatim>\<open>null\<close>, the enumerable own property when
  there is one, and otherwise whatever the built-ins provide, the parameter \<open>builtin\<close>.
\<close>

definition lookup ::
  "('n jsval \<Rightarrow> string \<Rightarrow> 'n atom option) \<Rightarrow> 'n jsval option \<Rightarrow> string \<Rightarrow> 'n jsval option" where
  "lookup builtin obj k =
     (case obj of
        None \<Rightarrow> None
      | Some v \<Rightarrow>
          if v = Prim JNull then None
          else (case own_property v k of
                  Some x \<Rightarrow> Some x
                | None \<Rightarrow> map_option Prim (builtin v k)))"

text \<open>\<^verbatim>\<open>val !== null && typeof val === 'object'\<close>.\<close>

fun is_object :: "'n jsval option \<Rightarrow> bool" where
  "is_object (Some (JObject _)) = True"
| "is_object (Some (JArray _)) = True"
| "is_object (Some (Prim (JPrototype _))) = True"
| "is_object _ = False"

text \<open>
  \<^verbatim>\<open>val1 !== val2\<close> where the two are not both objects: they differ as values, or they are
  NaN.
\<close>

definition strict_neq :: "'n jsval option \<Rightarrow> 'n jsval option \<Rightarrow> bool" where
  "strict_neq val1 val2 = (val1 \<noteq> val2 \<or> val1 = Some (Prim JNaN))"

text \<open>A value JSON can denote has no NaN in it.\<close>

fun nan_free :: "'n jsval \<Rightarrow> bool" where
  "nan_free (Prim a) = (a \<noteq> JNaN)"
| "nan_free (JArray xs) = list_all nan_free xs"
| "nan_free (JObject kvs) = list_all (\<lambda>kv. nan_free (snd kv)) kvs"

fun nan_free_opt :: "'n jsval option \<Rightarrow> bool" where
  "nan_free_opt None = True"
| "nan_free_opt (Some v) = nan_free v"

text \<open>\<^verbatim>\<open>change.type\<close>, and the number of entries of one type.\<close>

fun entry_type :: "'n DiffEntry \<Rightarrow> string" where
  "entry_type (Added p v) = ''added''"
| "entry_type (Removed p v) = ''removed''"
| "entry_type (Changed p a b) = ''changed''"

definition count_type :: "string \<Rightarrow> 'n DiffEntry list \<Rightarrow> nat" where
  "count_type t diff = length (filter (\<lambda>change. entry_type change = t) diff)"

text \<open>\<^verbatim>\<open>new Set([...])\<close> in iteration order: each key once, at its first occurrence.\<close>

definition key_set :: "string list \<Rightarrow> string list" where
  "key_set ks = fold (\<lambda>k acc. if k \<in> set acc then acc else acc @ [k]) ks []"

text \<open>
  \<^verbatim>\<open>formatDiff(diff, type)\<close>. \<^verbatim>\<open>JSON.stringify\<close> of a value, the string conversion of a value in
  a template literal and \<^verbatim>\<open>JSON.stringify({ diff }, null, 2)\<close> are the parameters
  \<open>stringify\<close>, \<open>toStr\<close> and \<open>stringify_diff\<close>.
\<close>

definition join :: "string \<Rightarrow> string list \<Rightarrow> string" where
  "join sep xs = (case xs of [] \<Rightarrow> [] | y # ys \<Rightarrow> y @ concat (map (\<lambda>z. sep @ z) ys))"

record stats =
  added :: nat
  removed :: nat
  changed :: nat

fun bump :: "'n DiffEntry \<Rightarrow> stats \<Rightarrow> stats" where
  "bump (Added p v) st = st\<lparr>added := added st + 1\<rparr>"
| "bump (Removed p v) st = st\<lparr>removed := removed st + 1\<rparr>"
| "bump (Changed p a b) st = st\<lparr>changed := changed st + 1\<rparr>"

fun git_line :: "('n jsval \<Rightarrow> string) \<Rightarrow> 'n DiffEntry \<Rightarrow> string" where
  "git_line stringify (Added p v) = ''+ '' @ p @ '': '' @ stringify v"
| "git_line stringify (Removed p v) = ''- '' @ p @ '': '' @ stringify v"
| "git_line stringify (Changed p a b) = ''~ '' @ p @ '': '' @ stringify a @ '' -> '' @ stringify b"

fun plain_line :: "('n jsval \<Rightarrow> string) \<Rightarrow> 'n DiffEntry \<Rightarrow> string" where
  "plain_line toStr (Added p v) = ''Added '' @ p @ '' = '' @ toStr v"
| "plain_line toStr (Removed p v) = ''Removed '' @ p @ '' (was '' @ toStr v @ '')''"
| "plain_line toStr (Changed p a b) = ''Changed '' @ p @ '' from '' @ toStr a @ '' to '' @ toStr b"

fun compact_line :: "'n DiffEntry \<Rightarrow> string" where
  "compact_line (Added p v) = ''+'' @ p"
| "compact_line (Removed p v) = ''-'' @ p"
| "compact_line (Changed p a b) = ''~'' @ p"

definition formatDiff ::
  "('n jsval \<Rightarrow> string) \<Rightarrow> ('n jsval \<Rightarrow> string) \<Rightarrow> ('n DiffEntry list \<Rightarrow> string) \<Rightarrow>
   'n DiffEntry list \<Rightarrow> string \<Rightarrow> string" where
  "formatDiff stringify toStr stringify_diff diff type =
     (if type = ''git'' then join [CHR 0x0A] (map (git_line stringify) diff)
      else if type = ''plain'' then join [CHR 0x0A] (map (plain_line toStr) diff)
      else if type = ''compact'' then join [CHR 0x0A] (map compact_line diff)
      else if type = ''summary'' then
        (let stats = fold bump diff \<lparr>added = 0, removed = 0, changed = 0\<rparr>
         in ''Added: '' @ show_nat (added stats) @ '', Removed: '' @ show_nat (removed stats)
            @ '', Changed: '' @ show_nat (changed stats))
      else stringify_diff diff)"

text \<open>
  \<^verbatim>\<open>generateDiff(obj1, obj2, path)\<close> recurses into property values. It terminates because
  every key of the loop is an enumerable own property of one of the two values, whose
  value is a proper part of it, and a value provided by the built-ins is no container.
\<close>

fun weight :: "'n jsval \<Rightarrow> nat" where
  "weight (Prim _) = 0"
| "weight (JArray xs) = Suc (sum_list (map weight xs))"
| "weight (JObject kvs) = Suc (sum_list (map (\<lambda>kv. weight (snd kv)) kvs))"

definition oweight :: "'n jsval option \<Rightarrow> nat" where
  "oweight obj = (case obj of None \<Rightarrow> 0 | Some v \<Rightarrow> weight v)"

lemma set_key_set_aux:
  "set (fold (\<lambda>k acc. if k \<in> set acc then acc else acc @ [k]) ks acc) = set acc \<union> set ks"
  by (induction ks arbitrary: acc) auto

lemma set_key_set: "set (key_set ks) = set ks"
  by (simp add: key_set_def set_key_set_aux)

lemma weight_mem: "x \<in> set xs \<Longrightarrow> weight x < Suc (sum_list (map weight xs))"
  by (induction xs) auto

lemma weight_map_of:
  "map_of kvs k = Some v \<Longrightarrow> weight v < Suc (sum_list (map (\<lambda>kv. weight (snd kv)) kvs))"
  by (induction kvs) (auto split: if_splits)

lemma own_property_weight:
  "own_property v k = Some x \<Longrightarrow> is_object (Some x) \<Longrightarrow> weight x < weight v"
proof (cases v)
  case (Prim a)
  assume "own_property v k = Some x" "is_object (Some x)"
  with Prim show ?thesis
    by (cases a) (auto dest!: map_of_SomeD set_zip_rightD)
next
  case (JArray xs)
  assume "own_property v k = Some x"
  with JArray have "x \<in> set xs" by (auto dest!: map_of_SomeD set_zip_rightD)
  with JArray show ?thesis by (simp add: weight_mem)
next
  case (JObject kvs)
  assume "own_property v k = Some x"
  with JObject show ?thesis by (simp add: weight_map_of)
qed

lemma map_of_zip_some:
  "k \<in> set ks \<Longrightarrow> length ks = length vs \<Longrightarrow> \<exists>x. map_of (zip ks vs) k = Some x"
  using map_of_zip_is_Some[of ks vs k] by simp

lemma own_property_keys: "k \<in> set (Object_keys v) \<Longrightarrow> \<exists>x. own_property v k = Some x"
proof (cases v)
  case (Prim a)
  assume "k \<in> set (Object_keys v)"
  with Prim show ?thesis
    by (cases a) (auto simp: indices_def intro!: map_of_zip_some)
next
  case (JArray xs)
  assume "k \<in> set (Object_keys v)"
  with JArray show ?thesis
    by (auto simp: indices_def intro!: map_of_zip_some)
next
  case (JObject kvs)
  assume "k \<in> set (Object_keys v)"
  with JObject show ?thesis
    by (cases "map_of kvs k") (auto simp: map_of_eq_None_iff)
qed

lemma keys_or_empty:
  "k \<in> set (Object_keys (or_empty obj)) \<Longrightarrow>
   \<exists>v. obj = Some v \<and> v \<noteq> Prim JNull \<and> k \<in> set (Object_keys v)"
  by (cases obj) (auto simp: or_empty_def split: if_splits)

lemma lookup_weight_le:
  "oweight (lookup B obj k) \<le> oweight obj \<or> \<not> is_object (lookup B obj k)"
proof (cases obj)
  case None
  then show ?thesis by (simp add: lookup_def)
next
  case (Some v)
  show ?thesis
  proof (cases "own_property v k")
    case None
    with Some show ?thesis
      by (cases "B v k") (auto simp: lookup_def oweight_def)
  next
    case (Some x)
    with \<open>obj = Some v\<close> own_property_weight[OF Some] show ?thesis
      by (auto simp: lookup_def oweight_def)
  qed
qed

lemma lookup_weight_less:
  assumes "k \<in> set (Object_keys (or_empty obj))" "is_object (lookup B obj k)"
  shows "oweight (lookup B obj k) < oweight obj"
proof -
  from keys_or_empty[OF assms(1)]
  obtain v where v: "obj = Some v" "v \<noteq> Prim JNull" "k \<in> set (Object_keys v)"
    by blast
  from own_property_keys[OF v(3)] obtain x where x: "own_property v k = Some x" by blast
  with v have g: "lookup B obj k = Some x" by (simp add: lookup_def)
  with assms(2) own_property_weight[OF x] v show ?thesis by (simp add: oweight_def)
qed

lemma generateDiff_decreases:
  assumes "k \<in> set (Object_keys (or_empty obj1)) \<union> set (Object_keys (or_empty obj2))"
    and "is_object (lookup B obj1 k)" "is_object (lookup B obj2 k)"
  shows "oweight (lookup B obj1 k) + oweight (lookup B obj2 k) < oweight obj1 + oweight obj2"
  using assms lookup_weight_less[of k obj1 B] lookup_weight_less[of k obj2 B]
    lookup_weight_le[of B obj1 k] lookup_weight_le[of B obj2 k]
  by auto

text \<open>
  The loop \<^verbatim>\<open>for (const key of keys)\<close> pushes the entries of each key in turn: the result is
  the concatenation of what each key contributes. In the branch \<^verbatim>\<open>val1 !== val2\<close> the two
  values are not both objects, so that \<^verbatim>\<open>!==\<close> is \<open>strict_neq\<close>.
\<close>

function generateDiff ::
  "(('n::zero) jsval \<Rightarrow> string \<Rightarrow> 'n atom option) \<Rightarrow> 'n jsval option \<Rightarrow> 'n jsval option \<Rightarrow>
   string \<Rightarrow> 'n DiffEntry list" where
  "generateDiff builtin obj1 obj2 path =
     concat (map (\<lambda>key.
       let fullPath = (if path \<noteq> [] then path @ ''.'' @ key else key);
           val1 = lookup builtin obj1 key;
           val2 = lookup builtin obj2 key
       in if is_object val1 \<and> is_object val2 then generateDiff builtin val1 val2 fullPath
          else if strict_neq val1 val2 then
            (case (val1, val2) of
               (None, Some v2) \<Rightarrow> [Added fullPath v2]
             | (Some v1, None) \<Rightarrow> [Removed fullPath v1]
             | (Some v1, Some v2) \<Rightarrow> [Changed fullPath v1 v2]
             | (None, None) \<Rightarrow> [])
          else [])
       (key_set (Object_keys (or_empty obj1) @ Object_keys (or_empty obj2))))"
  by pat_completeness auto
termination
  by (relation "measure (\<lambda>(B, obj1, obj2, path). oweight obj1 + oweight obj2)")
     (auto simp: set_key_set intro: generateDiff_decreases)

declare generateDiff.simps [simp del]

section \<open>Properties of the rate limiter\<close>

lemma checkRateLimit_fresh:
  "m ip = None \<or> (\<exists>info. m ip = Some info \<and> now > resetTime info) \<Longrightarrow>
   checkRateLimit now ip m = (True, m(ip \<mapsto> \<lparr>count = 1, resetTime = now + RATE_LIMIT_WINDOW\<rparr>))"
  by (auto simp: checkRateLimit_def)

lemma checkRateLimit_open:
  "m ip = Some info \<Longrightarrow> \<not> now > resetTime info \<Longrightarrow>
   checkRateLimit now ip m =
     (if count info \<ge> MAX_CONNECTIONS_PER_IP then (False, m)
      else (True, m(ip \<mapsto> info\<lparr>count := count info + 1\<rparr>)))"
  by (simp add: checkRateLimit_def)

text \<open>Attempts of one address inside an open window: the count climbs to the maximum and stays.\<close>

lemma window_run:
  "m ip = Some \<lparr>count = c, resetTime = r\<rparr> \<Longrightarrow> \<forall>t \<in> set ts. t \<le> r \<Longrightarrow> c \<le> MAX_CONNECTIONS_PER_IP \<Longrightarrow>
   answers m (map (\<lambda>t. (t, ip)) ts) = map (\<lambda>i. c + int i < MAX_CONNECTIONS_PER_IP) [0..<length ts] \<and>
   after m (map (\<lambda>t. (t, ip)) ts) ip =
     Some \<lparr>count = min MAX_CONNECTIONS_PER_IP (c + int (length ts)), resetTime = r\<rparr>"
proof (induction ts arbitrary: m c)
  case Nil
  then show ?case by simp
next
  case (Cons t ts)
  have t: "\<not> t > r" and ts: "\<forall>t \<in> set ts. t \<le> r" using Cons.prems(2) by auto
  show ?case
  proof (cases "c \<ge> MAX_CONNECTIONS_PER_IP")
    case True
    then have step: "checkRateLimit t ip m = (False, m)"
      using checkRateLimit_open[of m ip _ t] Cons.prems(1) t by simp
    from True Cons.prems(3) have c: "c = MAX_CONNECTIONS_PER_IP" by simp
    show ?thesis
      using Cons.IH[of m c] Cons.prems(1,3) ts step c
      by (simp add: map_upt_Suc del: upt_Suc)
  next
    case False
    then have step: "checkRateLimit t ip m = (True, m(ip \<mapsto> \<lparr>count = c + 1, resetTime = r\<rparr>))"
      using checkRateLimit_open[of m ip _ t] Cons.prems(1) t by simp
    define m' where "m' = m(ip \<mapsto> \<lparr>count = c + 1, resetTime = r\<rparr>)"
    have "m' ip = Some \<lparr>count = c + 1, resetTime = r\<rparr>" by (simp add: m'_def)
    moreover have "c + 1 \<le> MAX_CONNECTIONS_PER_IP" using False by simp
    ultimately have ih:
      "answers m' (map (\<lambda>t. (t, ip)) ts) = map (\<lambda>i. c + 1 + int i < MAX_CONNECTIONS_PER_IP) [0..<length ts] \<and>
       after m' (map (\<lambda>t. (t, ip)) ts) ip =
         Some \<lparr>count = min MAX_CONNECTIONS_PER_IP (c + 1 + int (length ts)), resetTime = r\<rparr>"
      using ts by (intro Cons.IH)
    have step': "checkRateLimit t ip m = (True, m')" using step by (simp add: m'_def)
    show ?thesis
      using ih False step'
      by (simp add: map_upt_Suc add.assoc del: upt_Suc)
  qed
qed


lemma answers_append:
  "answers m (cs @ ds) = answers m cs @ answers (after m cs) ds"
  by (induction m cs rule: answers.induct) simp_all

lemma after_append: "after m (cs @ ds) = after (after m cs) ds"
  by (induction m cs rule: after.induct) simp_all

lemma checkRateLimit_bounded:
  assumes "\<forall>ip info. m ip = Some info \<longrightarrow> 1 \<le> count info \<and> count info \<le> MAX_CONNECTIONS_PER_IP"
  shows "\<forall>ip info. snd (checkRateLimit now a m) ip = Some info \<longrightarrow>
           1 \<le> count info \<and> count info \<le> MAX_CONNECTIONS_PER_IP"
proof (intro allI impI)
  fix ip info
  assume s: "snd (checkRateLimit now a m) ip = Some info"
  show "1 \<le> count info \<and> count info \<le> MAX_CONNECTIONS_PER_IP"
  proof (cases "ip = a")
    case False
    with s have "m ip = Some info"
      by (auto simp: checkRateLimit_def split: option.splits if_splits)
    with assms show ?thesis by blast
  next
    case True
    show ?thesis
    proof (cases "m a")
      case None
      with s True show ?thesis
        by (auto simp: checkRateLimit_def MAX_CONNECTIONS_PER_IP_def)
    next
      case (Some old)
      with assms have "1 \<le> count old \<and> count old \<le> MAX_CONNECTIONS_PER_IP" by blast
      with s True Some show ?thesis
        by (auto simp: checkRateLimit_def MAX_CONNECTIONS_PER_IP_def split: if_splits)
    qed
  qed
qed

lemma after_bounded:
  "\<forall>ip info. m ip = Some info \<longrightarrow> 1 \<le> count info \<and> count info \<le> MAX_CONNECTIONS_PER_IP \<Longrightarrow>
   \<forall>ip info. after m cs ip = Some info \<longrightarrow> 1 \<le> count info \<and> count info \<le> MAX_CONNECTIONS_PER_IP"
proof (induction m cs rule: after.induct)
  case (1 m)
  then show ?case by simp
next
  case (2 m now a cs)
  from checkRateLimit_bounded[OF "2.prems"] show ?case
    by (simp only: after.simps) (rule "2.IH")
qed

lemma checkRateLimit_refused_unchanged:
  "fst (checkRateLimit now ip m) = False \<Longrightarrow> snd (checkRateLimit now ip m) = m"
  by (auto simp: checkRateLimit_def split: option.splits if_splits)

text \<open>
  Claim C6. For one source address: an attempt that finds no record, or a record whose
  window has expired (\<open>now > resetTime\<close>), stores \<open>count = 1\<close> and
  \<open>resetTime = now + 60000\<close> and is allowed. Hence, when the first attempt is such an
  attempt at \<open>t1\<close> and five more follow no later than \<open>t1 + 60000\<close>, the first five
  are allowed and the sixth is refused; and after any number of attempts inside the
  window, an attempt later than \<open>t1 + 60000\<close> is allowed and leaves the record at
  \<open>count = 1\<close> with a new window.
\<close>

theorem checkRateLimit_window:
  "(m ip = None \<or> (\<exists>info. m ip = Some info \<and> t1 > resetTime info) \<longrightarrow>
      checkRateLimit t1 ip m = (True, m(ip \<mapsto> \<lparr>count = 1, resetTime = t1 + 60000\<rparr>)))
   \<and> ((m ip = None \<or> (\<exists>info. m ip = Some info \<and> t1 > resetTime info)) \<and>
      (\<forall>t \<in> set [t2, t3, t4, t5, t6]. t \<le> t1 + 60000) \<longrightarrow>
      answers m (map (\<lambda>t. (t, ip)) [t1, t2, t3, t4, t5, t6]) = [True, True, True, True, True, False])
   \<and> ((m ip = None \<or> (\<exists>info. m ip = Some info \<and> t1 > resetTime info)) \<and>
      (\<forall>t \<in> set ts. t \<le> t1 + 60000) \<and> t > t1 + 60000 \<longrightarrow>
      last (answers m (map (\<lambda>t. (t, ip)) (t1 # ts @ [t]))) = True \<and>
      after m (map (\<lambda>t. (t, ip)) (t1 # ts @ [t])) ip = Some \<lparr>count = 1, resetTime = t + 60000\<rparr>)"
proof (intro conjI impI)
  assume "m ip = None \<or> (\<exists>info. m ip = Some info \<and> t1 > resetTime info)"
  then show "checkRateLimit t1 ip m = (True, m(ip \<mapsto> \<lparr>count = 1, resetTime = t1 + 60000\<rparr>))"
    using checkRateLimit_fresh[of m ip t1] by (simp add: RATE_LIMIT_WINDOW_def)
next
  assume a: "(m ip = None \<or> (\<exists>info. m ip = Some info \<and> t1 > resetTime info)) \<and>
      (\<forall>t \<in> set [t2, t3, t4, t5, t6]. t \<le> t1 + 60000)"
  define m1 where "m1 = m(ip \<mapsto> \<lparr>count = 1, resetTime = t1 + 60000\<rparr>)"
  have first: "checkRateLimit t1 ip m = (True, m1)"
    using a checkRateLimit_fresh[of m ip t1] by (simp add: RATE_LIMIT_WINDOW_def m1_def)
  have "m1 ip = Some \<lparr>count = 1, resetTime = t1 + 60000\<rparr>" by (simp add: m1_def)
  with window_run[of m1 ip 1 "t1 + 60000" "[t2, t3, t4, t5, t6]"] a
  have "answers m1 (map (\<lambda>t. (t, ip)) [t2, t3, t4, t5, t6]) = [True, True, True, True, False]"
    by (simp add: MAX_CONNECTIONS_PER_IP_def upt_rec)
  with first show "answers m (map (\<lambda>t. (t, ip)) [t1, t2, t3, t4, t5, t6]) = [True, True, True, True, True, False]"
    by simp
next
  assume a: "(m ip = None \<or> (\<exists>info. m ip = Some info \<and> t1 > resetTime info)) \<and>
      (\<forall>t \<in> set ts. t \<le> t1 + 60000) \<and> t > t1 + 60000"
  define m1 where "m1 = m(ip \<mapsto> \<lparr>count = 1, resetTime = t1 + 60000\<rparr>)"
  define m2 where "m2 = after m1 (map (\<lambda>t. (t, ip)) ts)"
  have first: "checkRateLimit t1 ip m = (True, m1)"
    using a checkRateLimit_fresh[of m ip t1] by (simp add: RATE_LIMIT_WINDOW_def m1_def)
  have "m1 ip = Some \<lparr>count = 1, resetTime = t1 + 60000\<rparr>" by (simp add: m1_def)
  with window_run[of m1 ip 1 "t1 + 60000" ts] a
  have m2: "m2 ip = Some \<lparr>count = min MAX_CONNECTIONS_PER_IP (1 + int (length ts)), resetTime = t1 + 60000\<rparr>"
    by (simp add: m2_def MAX_CONNECTIONS_PER_IP_def)
  have late: "checkRateLimit t ip m2 = (True, m2(ip \<mapsto> \<lparr>count = 1, resetTime = t + 60000\<rparr>))"
    using m2 a checkRateLimit_fresh[of m2 ip t] by (simp add: RATE_LIMIT_WINDOW_def)
  show "last (answers m (map (\<lambda>t. (t, ip)) (t1 # ts @ [t]))) = True"
    using first late by (simp add: answers_append m2_def)
  show "after m (map (\<lambda>t. (t, ip)) (t1 # ts @ [t])) ip = Some \<lparr>count = 1, resetTime = t + 60000\<rparr>"
    using first late by (simp add: after_append m2_def)
qed

theorem checkRateLimit_window_witness:
  "checkRateLimit 1000 ''10.0.0.1'' Map.empty
     = (True, [''10.0.0.1'' \<mapsto> \<lparr>count = 1, resetTime = 61000\<rparr>])
   \<and> answers Map.empty (map (\<lambda>t. (t, ''10.0.0.1'')) [1000, 2000, 3000, 4000, 5000, 61000])
     = [True, True, True, True, True, False]
   \<and> last (answers Map.empty (map (\<lambda>t. (t, ''10.0.0.1'')) (1000 # [2000, 3000] @ [61001]))) = True
   \<and> after Map.empty (map (\<lambda>t. (t, ''10.0.0.1'')) (1000 # [2000, 3000] @ [61001])) ''10.0.0.1''
     = Some \<lparr>count = 1, resetTime = 121001\<rparr>"
  using checkRateLimit_window[of Map.empty "''10.0.0.1''" 1000 2000 3000 4000 5000 61000 "[2000, 3000]" 61001]
  by (simp add: checkRateLimit_def RATE_LIMIT_WINDOW_def MAX_CONNECTIONS_PER_IP_def)

text \<open>
  Claim C7. After every sequence of calls from the empty map, every record has a count of
  at most 5 (and at least 1), whether or not its window is still open; a call that finds
  the window open and the count at 5 or more answers false and returns the map as it was;
  and every call that answers false returns the map as it was.
\<close>

theorem checkRateLimit_count_bounded:
  "(after Map.empty cs ip = Some info \<longrightarrow> 1 \<le> count info \<and> count info \<le> 5)
   \<and> (m ip = Some info' \<and> \<not> now > resetTime info' \<and> count info' \<ge> 5 \<longrightarrow>
        checkRateLimit now ip m = (False, m))
   \<and> (fst (checkRateLimit now ip m) = False \<longrightarrow> snd (checkRateLimit now ip m) = m)"
proof (intro conjI impI)
  assume "after Map.empty cs ip = Some info"
  moreover have "\<forall>ip info. after Map.empty cs ip = Some info \<longrightarrow>
      1 \<le> count info \<and> count info \<le> MAX_CONNECTIONS_PER_IP"
    by (rule after_bounded) simp
  ultimately show "1 \<le> count info" "count info \<le> 5"
    by (auto simp: MAX_CONNECTIONS_PER_IP_def)
next
  assume "m ip = Some info' \<and> \<not> now > resetTime info' \<and> count info' \<ge> 5"
  then show "checkRateLimit now ip m = (False, m)"
    by (simp add: checkRateLimit_def MAX_CONNECTIONS_PER_IP_def)
next
  assume "fst (checkRateLimit now ip m) = False"
  then show "snd (checkRateLimit now ip m) = m"
    by (rule checkRateLimit_refused_unchanged)
qed


theorem checkRateLimit_count_bounded_witness:
  "after Map.empty (map (\<lambda>t. (t, ''10.0.0.1'')) [1, 2, 3, 4, 5, 6, 7]) ''10.0.0.1''
     = Some \<lparr>count = 5, resetTime = 60001\<rparr>
   \<and> 1 \<le> count \<lparr>count = 5, resetTime = 60001\<rparr> \<and> count \<lparr>count = 5, resetTime = 60001\<rparr> \<le> 5
   \<and> checkRateLimit 8 ''10.0.0.1'' [''10.0.0.1'' \<mapsto> \<lparr>count = 5, resetTime = 60001\<rparr>]
     = (False, [''10.0.0.1'' \<mapsto> \<lparr>count = 5, resetTime = 60001\<rparr>])
   \<and> fst (checkRateLimit 8 ''10.0.0.1'' [''10.0.0.1'' \<mapsto> \<lparr>count = 5, resetTime = 60001\<rparr>]) = False
   \<and> snd (checkRateLimit 8 ''10.0.0.1'' [''10.0.0.1'' \<mapsto> \<lparr>count = 5, resetTime = 60001\<rparr>])
     = [''10.0.0.1'' \<mapsto> \<lparr>count = 5, resetTime = 60001\<rparr>]"
  using checkRateLimit_count_bounded[of "map (\<lambda>t. (t, ''10.0.0.1'')) [1, 2, 3, 4, 5, 6, 7]"
      "''10.0.0.1''" "\<lparr>count = 5, resetTime = 60001\<rparr>"
      "[''10.0.0.1'' \<mapsto> \<lparr>count = 5, resetTime = 60001\<rparr>]" "\<lparr>count = 5, resetTime = 60001\<rparr>" 8]
  by (simp add: checkRateLimit_def RATE_LIMIT_WINDOW_def MAX_CONNECTIONS_PER_IP_def)

section \<open>Properties of the source address\<close>

lemma find_header_name:
  "List.find P hs = Some h \<Longrightarrow> h \<in> set hs"
  by (induction hs) (auto split: if_splits)

lemma client_ip_is_header_name:
  assumes "h \<in> set ipHeaders" "truthy (headers req h)"
  shows "client_ip req \<in> set ipHeaders"
proof -
  from assms obtain h' where f: "List.find (\<lambda>header. truthy (headers req header)) ipHeaders = Some h'"
    by (cases "List.find (\<lambda>header. truthy (headers req header)) ipHeaders") (auto simp: find_None_iff)
  then have h': "h' \<in> set ipHeaders" by (rule find_header_name)
  then have "h' \<noteq> []" by (auto simp: ipHeaders_def)
  with f h' show ?thesis by (simp add: client_ip_def js_or_def truthy_def)
qed

text \<open>
  Claim C1 says that the key of the limiter is the \<^emph>\<open>value\<close> of the first listed header
  that is present, else the peer address, else \<open>''unknown''\<close>. The two fall-backs are as
  the claim says. With a listed header present the code departs from it: the key is the
  header's \<^emph>\<open>name\<close> (\<open>client_ip_is_header_name\<close>). Two requests forwarded for different
  addresses get the same key, and the limiter counts them in one record, stored under
  the header name; nothing is stored under either address.
\<close>

theorem client_ip_forwarded_for:
  "client_ip \<lparr>headers = [''x-forwarded-for'' \<mapsto> ''203.0.113.7''], remoteAddress = Some ''10.0.0.1''\<rparr>
     = ''x-forwarded-for''
   \<and> client_ip \<lparr>headers = [''x-forwarded-for'' \<mapsto> ''198.51.100.9''], remoteAddress = Some ''10.0.0.2''\<rparr>
     = ''x-forwarded-for''
   \<and> client_ip \<lparr>headers = Map.empty, remoteAddress = Some ''10.0.0.1''\<rparr> = ''10.0.0.1''
   \<and> client_ip \<lparr>headers = Map.empty, remoteAddress = None\<rparr> = ''unknown''
   \<and> snd (rate_gate 2000
          \<lparr>headers = [''x-forwarded-for'' \<mapsto> ''198.51.100.9''], remoteAddress = Some ''10.0.0.2''\<rparr>
          (snd (rate_gate 1000
             \<lparr>headers = [''x-forwarded-for'' \<mapsto> ''203.0.113.7''], remoteAddress = Some ''10.0.0.1''\<rparr>
             Map.empty)))
     = [''x-forwarded-for'' \<mapsto> \<lparr>count = 2, resetTime = 61000\<rparr>]"
  by (simp add: client_ip_def js_or_def truthy_def ipHeaders_def rate_gate_def checkRateLimit_def
      RATE_LIMIT_WINDOW_def MAX_CONNECTIONS_PER_IP_def)

section \<open>Properties of the token authenticator\<close>

lemma parseInt_nonempty: "parseInt ts = Some n \<Longrightarrow> ts \<noteq> []"
  by (auto simp: parseInt_def)

lemma length_hex: "length (hex bs) = 2 * length bs"
  by (induction bs) (simp_all add: hex_def)

lemma hex_digit_lower: "hex_digit n \<in> set ''0123456789abcdef''"
  unfolding hex_digit_def by (rule nth_mem) simp

lemma hex_lower: "set (hex bs) \<subseteq> set ''0123456789abcdef''"
proof (induction bs)
  case Nil
  show ?case by (simp add: hex_def)
next
  case (Cons b bs)
  have "hex (b # bs) = [hex_digit (unat (drop_bit 4 b)), hex_digit (unat (take_bit 4 b))] @ hex bs"
    by (simp add: hex_def)
  with Cons hex_digit_lower[of "unat (drop_bit 4 b)"] hex_digit_lower[of "unat (take_bit 4 b)"]
  show ?case by simp
qed

lemma startup_secret: "startup uri TOKEN = Inr secret \<Longrightarrow> TOKEN = Some secret \<and> secret \<noteq> []"
  by (auto simp: startup_def split: if_splits option.splits)

text \<open>
  Claim C4. The process runs with a secret that passed the start-up check. For that secret
  and every timestamp string that \<open>parseInt\<close> reads as \<open>n\<close>, the token that is the
  lower-case hexadecimal HMAC-SHA-256 digest (32 bytes, 64 digits) of the timestamp string is
  accepted at every time \<open>now\<close> with \<open>\<bar>now - n\<bar> \<le> 300000\<close>.
\<close>

theorem validateToken_accepts_expected:
  assumes "startup MONGODB_URI TOKEN = Inr secret"
    and "length (hmac_sha256 secret ts) = 32"
    and "parseInt ts = Some n"
    and "\<bar>now - n\<bar> \<le> 5 * 60 * 1000"
  shows "validateToken hmac_sha256 TOKEN now (Some (hex (hmac_sha256 secret ts))) (Some ts) = Inr True
     \<and> length (hex (hmac_sha256 secret ts)) = 64
     \<and> set (hex (hmac_sha256 secret ts)) \<subseteq> set ''0123456789abcdef''"
proof -
  from startup_secret[OF assms(1)] have T: "TOKEN = Some secret" "secret \<noteq> []" by simp_all
  have len: "length (hex (hmac_sha256 secret ts)) = 64"
    by (simp add: length_hex assms(2))
  then have ne: "hex (hmac_sha256 secret ts) \<noteq> []" by auto
  have ts: "ts \<noteq> []" by (rule parseInt_nonempty[OF assms(3)])
  have "validateToken hmac_sha256 TOKEN now (Some (hex (hmac_sha256 secret ts))) (Some ts) = Inr True"
    using T ne ts assms(3,4) by (simp add: validateToken_def timingSafeEqual_def)
  with len hex_lower show ?thesis by blast
qed

theorem validateToken_accepts_expected_witness:
  "startup (Some ''mongodb://db'') (Some ''s3cret'') = Inr ''s3cret''
   \<and> length (replicate 32 (171 :: 8 word)) = 32
   \<and> parseInt ''1700000000000'' = Some 1700000000000
   \<and> \<bar>1700000300000 - 1700000000000\<bar> \<le> (5 * 60 * 1000 :: int)
   \<and> validateToken (\<lambda>key msg. replicate 32 171) (Some ''s3cret'') 1700000300000
        (Some (hex (replicate 32 171))) (Some ''1700000000000'') = Inr True"
  using validateToken_accepts_expected[of "Some ''mongodb://db''" "Some ''s3cret''" "''s3cret''"
      "\<lambda>key msg. replicate 32 171" "''1700000000000''" 1700000000000 1700000300000]
  by (simp add: startup_def truthy_def parseInt_def is_white_def is_digit_def dec_value_def)

text \<open>
  Claim C5. A timestamp further than five minutes from \<open>now\<close>, in the past or in the
  future, is rejected with \<open>False\<close> for every token, the right one included, every secret
  and every keyed hash: the answer is given before the token is compared, so that even a
  token of the wrong length raises nothing here.
\<close>

theorem validateToken_rejects_stale:
  "parseInt ts = Some n \<Longrightarrow> \<bar>now - n\<bar> > 5 * 60 * 1000 \<Longrightarrow>
   validateToken hmac_sha256 TOKEN now token (Some ts) = Inr False"
  by (simp add: validateToken_def split: option.splits)

theorem validateToken_rejects_stale_witness:
  "parseInt ''1700000000000'' = Some 1700000000000
   \<and> \<bar>1700000300001 - 1700000000000\<bar> > (5 * 60 * 1000 :: int)
   \<and> \<bar>1699999699999 - 1700000000000\<bar> > (5 * 60 * 1000 :: int)
   \<and> validateToken (\<lambda>key msg. replicate 32 171) (Some ''s3cret'') 1700000300001
        (Some (hex (replicate 32 171))) (Some ''1700000000000'') = Inr False
   \<and> validateToken (\<lambda>key msg. replicate 32 171) (Some ''s3cret'') 1699999699999
        (Some (hex (replicate 32 171))) (Some ''1700000000000'') = Inr False"
  using validateToken_rejects_stale[of "''1700000000000''" 1700000000000 1700000300001
      "\<lambda>key msg. replicate 32 171" "Some ''s3cret''" "Some (hex (replicate 32 171))"]
    validateToken_rejects_stale[of "''1700000000000''" 1700000000000 1699999699999
      "\<lambda>key msg. replicate 32 171" "Some ''s3cret''" "Some (hex (replicate 32 171))"]
  by (simp add: parseInt_def is_white_def is_digit_def dec_value_def)

text \<open>Absent or empty inputs and a timestamp without digits are rejected with \<open>False\<close>.\<close>

lemma validateToken_absent:
  "validateToken H TOKEN now None timestamp = Inr False"
  "validateToken H TOKEN now token None = Inr False"
  "validateToken H TOKEN now (Some []) timestamp = Inr False"
  "validateToken H TOKEN now token (Some []) = Inr False"
  "parseInt ts = None \<Longrightarrow> validateToken H TOKEN now token (Some ts) = Inr False"
  by (simp_all add: validateToken_def split: option.splits)

lemma length_Buffer_from_ascii:
  "\<forall>c \<in> set s. (of_char c :: nat) < 128 \<Longrightarrow> length (Buffer_from s) = length s"
  by (induction s) (simp_all add: Buffer_from_def utf8_unit_def)

lemma validateToken_throws:
  assumes "TOKEN = Some secret" "secret \<noteq> []" "tok \<noteq> []"
    and "parseInt ts = Some n" "\<bar>now - n\<bar> \<le> 5 * 60 * 1000"
    and "length (Buffer_from tok) \<noteq> length (Buffer_from (hex (H secret ts)))"
  shows "validateToken H TOKEN now (Some tok) (Some ts) = Inl ERR_CRYPTO_TIMING_SAFE_EQUAL_LENGTH"
  using assms parseInt_nonempty[OF assms(4)]
  by (simp add: validateToken_def timingSafeEqual_def)

lemma hex_ascii: "c \<in> set (hex bs) \<Longrightarrow> (of_char c :: nat) < 128"
proof -
  assume "c \<in> set (hex bs)"
  with hex_lower[of bs] have "c \<in> set ''0123456789abcdef''" by blast
  then show ?thesis by auto
qed

lemma length_Buffer_from_hex: "length (Buffer_from (hex bs)) = 2 * length bs"
  using length_Buffer_from_ascii[of "hex bs"] hex_ascii[of _ bs] by (simp add: length_hex)

text \<open>
  Claim C2 says that \<open>validateToken\<close> never throws and answers \<open>False\<close> for every token that
  is not the expected one, whatever its length. The code departs from it: with a fresh
  timestamp, a token whose UTF-8 length is not that of the expected token (64 bytes)
  reaches \<open>timingSafeEqual\<close>, which throws (\<open>validateToken_throws\<close>). Here the token
  \<open>''abc''\<close>, 123 ms after the timestamp.
\<close>

theorem validateToken_short_token_throws:
  "validateToken (\<lambda>key msg. replicate 32 171) (Some ''s3cret'') 1700000000123
     (Some ''abc'') (Some ''1700000000000'') = Inl ERR_CRYPTO_TIMING_SAFE_EQUAL_LENGTH"
  proof -
  have "length (Buffer_from ''abc'') = 3"
    by (simp add: Buffer_from_def utf8_unit_def)
  moreover have "length (Buffer_from (hex (replicate 32 (171 :: 8 word)))) = 64"
    by (simp add: length_Buffer_from_hex)
  moreover have "parseInt ''1700000000000'' = Some 1700000000000"
    by (simp add: parseInt_def is_white_def is_digit_def dec_value_def)
  ultimately show ?thesis
    using validateToken_throws[of "Some ''s3cret''" "''s3cret''" "''abc''" "''1700000000000''"
      1700000000000 1700000000123 "\<lambda>key msg. replicate 32 171"]
    by simp
qed

section \<open>Properties of the broadcast\<close>

lemma broadcast_loop:
  "activeSockets (fold (\<lambda>ws w'. if state w' ws = OPEN then ws_send ws p w' else w') xs w) = activeSockets w
   \<and> state (fold (\<lambda>ws w'. if state w' ws = OPEN then ws_send ws p w' else w') xs w) = state w
   \<and> stringified (fold (\<lambda>ws w'. if state w' ws = OPEN then ws_send ws p w' else w') xs w) = stringified w
   \<and> sent (fold (\<lambda>ws w'. if state w' ws = OPEN then ws_send ws p w' else w') xs w) c =
       sent w c @ replicate (if state w c = OPEN then count_list xs c else 0) p"
proof (induction xs arbitrary: w)
  case Nil
  show ?case by simp
next
  case (Cons x xs)
  show ?case
  proof (cases "state w x = OPEN")
    case True
    with Cons[of "ws_send x p w"] show ?thesis
      by (auto simp: ws_send_def replicate_app_Cons_same)
  next
    case False
    with Cons[of w] show ?thesis by auto
  qed
qed

lemma count_list_distinct: "distinct xs \<Longrightarrow> count_list xs c = (if c \<in> set xs then 1 else 0)"
  by (induction xs) auto

lemma distinct_add_socket: "distinct (activeSockets w) \<Longrightarrow> distinct (activeSockets (add_socket ws w))"
  by (simp add: add_socket_def)

lemma distinct_delete_socket: "distinct (activeSockets w) \<Longrightarrow> distinct (activeSockets (delete_socket ws w))"
  by (simp add: delete_socket_def distinct_removeAll)

lemma broadcast_sent:
  assumes "distinct (activeSockets w)"
  shows "sent (broadcast f m w) c =
    (if c \<in> set (activeSockets w) \<and> state w c = OPEN then sent w c @ [f m] else sent w c)"
proof -
  let ?w1 = "w\<lparr>stringified := stringified w @ [m]\<rparr>"
  have "sent (broadcast f m w) c =
      sent ?w1 c @ replicate (if state ?w1 c = OPEN then count_list (activeSockets ?w1) c else 0) (f m)"
    using broadcast_loop[of "f m" "activeSockets ?w1" ?w1 c]
    by (simp add: broadcast_def JSON_stringify_def)
  with assms show ?thesis by (simp add: count_list_distinct)
qed

text \<open>
  Claim C8. \<open>broadcast\<close> calls the serializer once, on the message. Every socket of the
  registry whose state is \<open>OPEN\<close> is handed that one payload, once; every other socket,
  in the registry or not, is handed nothing; the registry and the states are as before.
  So a socket added before the call gets the payload when it is open, and a socket
  deleted before the call gets nothing.
\<close>

theorem broadcast_delivers:
  "distinct (activeSockets w) \<Longrightarrow>
   activeSockets (broadcast f m w) = activeSockets w
   \<and> state (broadcast f m w) = state w
   \<and> stringified (broadcast f m w) = stringified w @ [m]
   \<and> (\<forall>c. sent (broadcast f m w) c =
        (if c \<in> set (activeSockets w) \<and> state w c = OPEN then sent w c @ [f m] else sent w c))
   \<and> (\<forall>c. sent (broadcast f m (add_socket c w)) c =
        (if state w c = OPEN then sent w c @ [f m] else sent w c))
   \<and> (\<forall>c. sent (broadcast f m (delete_socket c w)) c = sent w c)"
proof (intro conjI allI)
  assume d: "distinct (activeSockets w)"
  let ?w1 = "w\<lparr>stringified := stringified w @ [m]\<rparr>"
  have b: "broadcast f m w =
      fold (\<lambda>ws w'. if state w' ws = OPEN then ws_send ws (f m) w' else w') (activeSockets ?w1) ?w1"
    by (simp add: broadcast_def JSON_stringify_def)
  show "activeSockets (broadcast f m w) = activeSockets w"
    using broadcast_loop[of "f m" "activeSockets ?w1" ?w1] by (simp add: b)
  show "state (broadcast f m w) = state w"
    using broadcast_loop[of "f m" "activeSockets ?w1" ?w1] by (simp add: b)
  show "stringified (broadcast f m w) = stringified w @ [m]"
    using broadcast_loop[of "f m" "activeSockets ?w1" ?w1] by (simp add: b)
  fix c
  show "sent (broadcast f m w) c =
        (if c \<in> set (activeSockets w) \<and> state w c = OPEN then sent w c @ [f m] else sent w c)"
    by (rule broadcast_sent[OF d])
  show "sent (broadcast f m (add_socket c w)) c =
        (if state w c = OPEN then sent w c @ [f m] else sent w c)"
    using broadcast_sent[OF distinct_add_socket[OF d], of f m c c]
    by (simp add: add_socket_def)
  show "sent (broadcast f m (delete_socket c w)) c = sent w c"
    using broadcast_sent[OF distinct_delete_socket[OF d], of f m c c]
    by (simp add: delete_socket_def)
qed

theorem broadcast_delivers_witness:
  "distinct (activeSockets
     \<lparr>activeSockets = [1, 2, 3 :: nat], state = (\<lambda>_. CLOSED)(1 := OPEN, 3 := OPEN, 4 := OPEN),
      sent = (\<lambda>_. [] :: string list), stringified = ([] :: string list)\<rparr>)
   \<and> broadcast (\<lambda>d. ''<'' @ d @ ''>'') ''change''
       \<lparr>activeSockets = [1, 2, 3 :: nat], state = (\<lambda>_. CLOSED)(1 := OPEN, 3 := OPEN, 4 := OPEN),
        sent = (\<lambda>_. []), stringified = []\<rparr>
     = \<lparr>activeSockets = [1, 2, 3], state = (\<lambda>_. CLOSED)(1 := OPEN, 3 := OPEN, 4 := OPEN),
        sent = (\<lambda>_. [])(1 := [''<change>''], 3 := [''<change>'']), stringified = [''change'']\<rparr>"
  using broadcast_delivers[of
     "\<lparr>activeSockets = [1, 2, 3 :: nat], state = (\<lambda>_. CLOSED)(1 := OPEN, 3 := OPEN, 4 := OPEN),
      sent = (\<lambda>_. [] :: string list), stringified = ([] :: string list)\<rparr>"
     "\<lambda>d. ''<'' @ d @ ''>''" "''change''"]
  by (simp add: broadcast_def JSON_stringify_def ws_send_def fun_eq_iff)

section \<open>Properties of the diff engine\<close>

text \<open>The examples of the specification, with no built-in property involved.\<close>

lemma generateDiff_examples:
  "generateDiff (\<lambda>v k. None)
     (Some (JObject [(''a'', Prim (JNum (1::int))), (''b'', Prim (JNum 2))]))
     (Some (JObject [(''a'', Prim (JNum 1)), (''b'', Prim (JNum 3))])) []
   = [Changed ''b'' (Prim (JNum 2)) (Prim (JNum 3))]"
  "generateDiff (\<lambda>v k. None)
     (Some (JObject [(''a'', Prim (JNum (1::int)))]))
     (Some (JObject [(''a'', Prim (JNum 1)), (''b'', Prim (JNum 2))])) []
   = [Added ''b'' (Prim (JNum 2))]"
  "generateDiff (\<lambda>v k. None)
     (Some (JObject [(''a'', Prim (JNum (1::int))), (''b'', Prim (JNum 2))]))
     (Some (JObject [(''a'', Prim (JNum 1))])) []
   = [Removed ''b'' (Prim (JNum 2))]"
  "generateDiff (\<lambda>v k. None)
     (Some (JObject [(''x'', JObject [(''y'', Prim (JNum (1::int)))])]))
     (Some (JObject [(''x'', JObject [(''y'', Prim (JNum 2))])])) []
   = [Changed ''x.y'' (Prim (JNum 1)) (Prim (JNum 2))]"
  by (simp_all add: generateDiff.simps key_set_def or_empty_def lookup_def strict_neq_def)

lemma fold_bump:
  "added (fold bump diff st) = added st + count_type ''added'' diff
   \<and> removed (fold bump diff st) = removed st + count_type ''removed'' diff
   \<and> changed (fold bump diff st) = changed st + count_type ''changed'' diff"
proof (induction diff arbitrary: st)
  case Nil
  show ?case by (simp add: count_type_def)
next
  case (Cons e diff)
  show ?case using Cons[of "bump e st"] by (cases e) (simp_all add: count_type_def)
qed

lemma count_type_map:
  "count_type t d = length (filter (\<lambda>s. s = t) (map entry_type d))"
  by (simp add: count_type_def filter_map comp_def)

lemma count_type_cong:
  "map entry_type d1 = map entry_type d2 \<Longrightarrow> count_type t d1 = count_type t d2"
  by (simp add: count_type_map)

lemma formatDiff_summary:
  "formatDiff S T D diff ''summary'' =
      ''Added: '' @ show_nat (count_type ''added'' diff) @
      '', Removed: '' @ show_nat (count_type ''removed'' diff) @
      '', Changed: '' @ show_nat (count_type ''changed'' diff)"
  using fold_bump[of diff "\<lparr>added = 0, removed = 0, changed = 0\<rparr>"]
  by (simp add: formatDiff_def Let_def)

text \<open>
  Claim C9. For every sequence of entries the \<open>summary\<close> rendering is
  \<open>Added: a, Removed: r, Changed: c\<close> with \<open>a\<close>, \<open>r\<close>, \<open>c\<close> the numbers of added, removed
  and changed entries in decimal; two sequences with the same entry types in the same
  order render alike, whatever their paths and payloads (and whatever the value
  renderers).
\<close>

theorem formatDiff_summary_counts:
  "formatDiff S T D diff ''summary'' =
      ''Added: '' @ show_nat (count_type ''added'' diff) @
      '', Removed: '' @ show_nat (count_type ''removed'' diff) @
      '', Changed: '' @ show_nat (count_type ''changed'' diff)
   \<and> (map entry_type diff = map entry_type diff' \<longrightarrow>
        formatDiff S T D diff ''summary'' = formatDiff S' T' D' diff' ''summary'')"
proof (intro conjI impI)
  show "formatDiff S T D diff ''summary'' =
      ''Added: '' @ show_nat (count_type ''added'' diff) @
      '', Removed: '' @ show_nat (count_type ''removed'' diff) @
      '', Changed: '' @ show_nat (count_type ''changed'' diff)"
    by (rule formatDiff_summary)
next
  assume a: "map entry_type diff = map entry_type diff'"
  show "formatDiff S T D diff ''summary'' = formatDiff S' T' D' diff' ''summary''"
    by (simp only: formatDiff_summary count_type_cong[OF a])
qed

theorem formatDiff_summary_counts_witness:
  "formatDiff (\<lambda>v. ''x'') (\<lambda>v. ''y'') (\<lambda>d. ''z'')
      [Added ''b'' (Prim (JNum (2::int))), Removed ''c'' (Prim JNull), Added ''d.e'' (JArray [])] ''summary''
     = ''Added: 2, Removed: 1, Changed: 0''
   \<and> map entry_type [Added ''b'' (Prim (JNum (2::int))), Removed ''c'' (Prim JNull), Added ''d.e'' (JArray [])]
     = map entry_type [Added ''p'' (Prim (JStr ''s'')), Removed ''q'' (JObject []), Added ''r'' (Prim (JBool True)) :: int DiffEntry]
   \<and> formatDiff (\<lambda>v. ''x'') (\<lambda>v. ''y'') (\<lambda>d. ''z'')
      [Added ''b'' (Prim (JNum (2::int))), Removed ''c'' (Prim JNull), Added ''d.e'' (JArray [])] ''summary''
     = formatDiff (\<lambda>v. ''u'') (\<lambda>v. ''v'') (\<lambda>d. ''w'')
      [Added ''p'' (Prim (JStr ''s'')), Removed ''q'' (JObject []), Added ''r'' (Prim (JBool True))] ''summary''"
  using formatDiff_summary_counts[of "\<lambda>v. ''x''" "\<lambda>v. ''y''" "\<lambda>d. ''z''"
      "[Added ''b'' (Prim (JNum (2::int))), Removed ''c'' (Prim JNull), Added ''d.e'' (JArray [])]"
      "[Added ''p'' (Prim (JStr ''s'')), Removed ''q'' (JObject []), Added ''r'' (Prim (JBool True))]"
      "\<lambda>v. ''u''" "\<lambda>v. ''v''" "\<lambda>d. ''w''"]
  by (simp add: count_type_def show_nat.simps digit_char_def)

lemma nan_free_map_of:
  "map_of kvs k = Some x \<Longrightarrow> list_all (\<lambda>kv. nan_free (snd kv)) kvs \<Longrightarrow> nan_free x"
  by (induction kvs) (auto split: if_splits)

lemma nan_free_own_property:
  "own_property v k = Some x \<Longrightarrow> nan_free v \<Longrightarrow> nan_free x"
proof (cases v)
  case (Prim a)
  assume "own_property v k = Some x"
  with Prim show ?thesis
    by (cases a) (auto dest!: map_of_SomeD set_zip_rightD)
next
  case (JArray xs)
  assume "own_property v k = Some x" "nan_free v"
  with JArray show ?thesis
    by (auto simp: list_all_iff dest!: map_of_SomeD set_zip_rightD)
next
  case (JObject kvs)
  assume "own_property v k = Some x" "nan_free v"
  with JObject show ?thesis by (auto intro: nan_free_map_of)
qed

lemma nan_free_lookup:
  assumes "k \<in> set (Object_keys (or_empty obj))" "nan_free_opt obj"
  shows "nan_free_opt (lookup B obj k)"
proof -
  from keys_or_empty[OF assms(1)]
  obtain v where v: "obj = Some v" "v \<noteq> Prim JNull" "k \<in> set (Object_keys v)"
    by blast
  from own_property_keys[OF v(3)] obtain x where x: "own_property v k = Some x" by blast
  with v have "lookup B obj k = Some x" by (simp add: lookup_def)
  with nan_free_own_property[OF x] assms(2) v(1) show ?thesis by simp
qed

lemma generateDiff_same:
  "obj1 = obj2 \<Longrightarrow> nan_free_opt obj1 \<Longrightarrow> generateDiff B obj1 obj2 path = []"
proof (induction B obj1 obj2 path rule: generateDiff.induct)
  case (1 B obj1 obj2 path)
  have "\<And>key. key \<in> set (Object_keys (or_empty obj1)) \<Longrightarrow>
     \<not> strict_neq (lookup B obj1 key) (lookup B obj1 key)"
  proof -
    fix key assume "key \<in> set (Object_keys (or_empty obj1))"
    from nan_free_lookup[OF this "1.prems"(2), of B] show "\<not> strict_neq (lookup B obj1 key) (lookup B obj1 key)"
      by (auto simp: strict_neq_def)
  qed
  moreover have "\<And>key. key \<in> set (Object_keys (or_empty obj1)) \<Longrightarrow>
     is_object (lookup B obj1 key) \<Longrightarrow>
     generateDiff B (lookup B obj1 key) (lookup B obj1 key) (if path \<noteq> [] then path @ ''.'' @ key else key) = []"
  proof -
    fix key assume k: "key \<in> set (Object_keys (or_empty obj1))" and o: "is_object (lookup B obj1 key)"
    show "generateDiff B (lookup B obj1 key) (lookup B obj1 key) (if path \<noteq> [] then path @ ''.'' @ key else key) = []"
      using "1.IH"[of key _ "lookup B obj1 key" "lookup B obj1 key"] k o "1.prems"(1)
        nan_free_lookup[OF k "1.prems"(2), of B]
      by (simp add: set_key_set)
  qed
  ultimately show ?case
    using "1.prems"(1)
    by (subst generateDiff.simps) (auto simp: Let_def set_key_set)
qed

text \<open>
  Claim C10. Diffing a value against itself yields no entry, at any path prefix and
  whatever the built-ins provide, for every value JSON can denote: objects, arrays,
  strings, numbers, booleans and null, nested to any depth.
\<close>

theorem generateDiff_self_empty: "nan_free a \<Longrightarrow> generateDiff builtin (Some a) (Some a) path = []"
  by (rule generateDiff_same) simp_all

theorem generateDiff_self_empty_witness:
  "nan_free (JObject [(''a'', Prim (JNum (1::int))), (''x'', JObject [(''y'', JArray [Prim (JStr ''s''), Prim JNull])])])
   \<and> generateDiff (\<lambda>v k. None)
        (Some (JObject [(''a'', Prim (JNum (1::int))), (''x'', JObject [(''y'', JArray [Prim (JStr ''s''), Prim JNull])])]))
        (Some (JObject [(''a'', Prim (JNum 1)), (''x'', JObject [(''y'', JArray [Prim (JStr ''s''), Prim JNull])])]))
        [] = []"
  using generateDiff_self_empty[of
      "JObject [(''a'', Prim (JNum (1::int))), (''x'', JObject [(''y'', JArray [Prim (JStr ''s''), Prim JNull])])]"
      "\<lambda>v k. None" "[]"]
  by simp

text \<open>
  The same for \<^verbatim>\<open>undefined\<close> against itself. NaN is where it stops: NaN is \<^verbatim>\<open>!==\<close> to
  itself, and a property holding it is reported as changed.
\<close>

lemma generateDiff_undefined_empty: "generateDiff builtin None None path = []"
  by (rule generateDiff_same) simp_all

lemma generateDiff_NaN:
  "generateDiff builtin (Some (JObject [(''x'', Prim JNaN)])) (Some (JObject [(''x'', Prim JNaN)])) []
     = [Changed ''x'' (Prim JNaN) (Prim JNaN)]"
  by (simp add: generateDiff.simps[of _ "Some (JObject [(''x'', Prim JNaN)])"] key_set_def or_empty_def lookup_def strict_neq_def)

end
